theory Spec2Isabelle
  imports Main
begin

section \<open>The filename sanitizer\<close>

text \<open>
  Embedding of \<^verbatim>\<open>sanitize_filename\<close> of \<^verbatim>\<open>download_ghibli_images.py\<close>:
  \<^verbatim>\<open>
  sanitized = re.sub(r'[\\/*?:"<>|]', "", filename)
  sanitized = sanitized.replace(" ", "_")
  sanitized = re.sub(r'_+', '_', sanitized)
  sanitized = sanitized.strip('_')
  \<close>
  A Python string is modelled as a \<^typ>\<open>string\<close>, one \<^typ>\<open>char\<close> for each character. None
  of the four steps looks at a character other than the nine of the character class, the
  space and the underscore.
\<close>

definition invalid_chars :: "char list" where
  \<comment> \<open>the character class of the first regular expression: backslash, slash, star,
      question mark, colon, double quote, less, greater, bar\<close>
  "invalid_chars =
     [CHR 0x5C, CHR ''/'', CHR ''*'', CHR ''?'', CHR '':'', CHR 0x22, CHR ''<'', CHR ''>'', CHR ''|'']"

definition remove_invalid :: "string \<Rightarrow> string" where
  \<comment> \<open>\<^verbatim>\<open>re.sub(r'[\\/*?:"<>|]', "", filename)\<close>: every character of the class is deleted\<close>
  "remove_invalid s = filter (\<lambda>c. c \<notin> set invalid_chars) s"

definition replace_spaces :: "string \<Rightarrow> string" where
  \<comment> \<open>\<^verbatim>\<open>sanitized.replace(" ", "_")\<close>\<close>
  "replace_spaces s = map (\<lambda>c. if c = CHR '' '' then CHR ''_'' else c) s"

fun collapse_underscores :: "string \<Rightarrow> string" where
  \<comment> \<open>\<^verbatim>\<open>re.sub(r'_+', '_', sanitized)\<close>: each maximal run of underscores becomes one\<close>
  "collapse_underscores [] = []"
| "collapse_underscores [c] = [c]"
| "collapse_underscores (c # d # s) =
     (if c = CHR ''_'' \<and> d = CHR ''_'' then collapse_underscores (d # s)
      else c # collapse_underscores (d # s))"

definition strip_underscores :: "string \<Rightarrow> string" where
  \<comment> \<open>\<^verbatim>\<open>sanitized.strip('_')\<close>: underscores are dropped from both ends\<close>
  "strip_underscores s =
     rev (dropWhile (\<lambda>c. c = CHR ''_'') (rev (dropWhile (\<lambda>c. c = CHR ''_'') s)))"

definition sanitize_filename :: "string \<Rightarrow> string" where
  "sanitize_filename filename =
     strip_underscores (collapse_underscores (replace_spaces (remove_invalid filename)))"

fun underscore_run :: "string \<Rightarrow> bool" where
  \<comment> \<open>the string has two underscores next to each other\<close>
  "underscore_run [] = False"
| "underscore_run [c] = False"
| "underscore_run (c # d # s) = ((c = CHR ''_'' \<and> d = CHR ''_'') \<or> underscore_run (d # s))"

definition starts_with :: "char \<Rightarrow> string \<Rightarrow> bool" where
  "starts_with c s = (case s of [] \<Rightarrow> False | x # _ \<Rightarrow> x = c)"

definition ends_with :: "char \<Rightarrow> string \<Rightarrow> bool" where
  "ends_with c s = starts_with c (rev s)"

section \<open>Paths and numbers of the standard library\<close>

text \<open>
  The script calls \<^verbatim>\<open>os.path.splitext\<close>, \<^verbatim>\<open>os.path.join\<close> and \<^verbatim>\<open>os.path.basename\<close>.
  They are functions of Python's standard library, embedded here as they are on a POSIX
  system, from \<^verbatim>\<open>posixpath.py\<close> and \<^verbatim>\<open>genericpath.py\<close> (separator \<^verbatim>\<open>/\<close>, no
  alternative separator):
  \<^verbatim>\<open>
  def _splitext(p, sep, altsep, extsep):
      sepIndex = p.rfind(sep)
      dotIndex = p.rfind(extsep)
      if dotIndex > sepIndex:
          # skip all leading dots
          filenameIndex = sepIndex + 1
          while filenameIndex < dotIndex:
              if p[filenameIndex:filenameIndex+1] != extsep:
                  return p[:dotIndex], p[dotIndex:]
              filenameIndex += 1
      return p, p[:0]
  \<close>
\<close>

definition rfind :: "string \<Rightarrow> char \<Rightarrow> int" where
  \<comment> \<open>\<^verbatim>\<open>p.rfind(c)\<close>: the highest index of \<open>c\<close> in \<open>p\<close>, and -1 when there is none\<close>
  "rfind p c =
     (if c \<in> set p then int (length p) - 1 - int (length (takeWhile (\<lambda>x. x \<noteq> c) (rev p)))
      else - 1)"

function splitext_scan :: "string \<Rightarrow> int \<Rightarrow> int \<Rightarrow> string \<times> string" where
  "splitext_scan p filenameIndex dotIndex =
     (if filenameIndex < dotIndex then
        (if take 1 (drop (nat filenameIndex) p) \<noteq> ''.''
         then (take (nat dotIndex) p, drop (nat dotIndex) p)
         else splitext_scan p (filenameIndex + 1) dotIndex)
      else (p, []))"
  by pat_completeness auto
termination
  by (relation "measure (\<lambda>(p, filenameIndex, dotIndex). nat (dotIndex - filenameIndex))") auto

declare splitext_scan.simps [simp del]

definition splitext :: "string \<Rightarrow> string \<times> string" where
  "splitext p =
     (let sepIndex = rfind p CHR ''/'';
          dotIndex = rfind p CHR ''.''
      in if dotIndex > sepIndex then splitext_scan p (sepIndex + 1) dotIndex else (p, []))"

definition path_join :: "string \<Rightarrow> string \<Rightarrow> string" where
  \<comment> \<open>\<^verbatim>\<open>os.path.join(a, b)\<close>: an absolute \<open>b\<close> replaces \<open>a\<close>\<close>
  "path_join a b =
     (if take 1 b = ''/'' then b
      else if a = [] \<or> take 1 (rev a) = ''/'' then a @ b
      else a @ ''/'' @ b)"

definition basename :: "string \<Rightarrow> string" where
  \<comment> \<open>\<^verbatim>\<open>i = p.rfind('/') + 1; return p[i:]\<close>\<close>
  "basename p = drop (nat (rfind p CHR ''/'' + 1)) p"

fun str_nat :: "nat \<Rightarrow> string" where
  \<comment> \<open>the decimal digits of a number, as an f-string prints it\<close>
  "str_nat n =
     (if n < 10 then [''0123456789'' ! n]
      else str_nat (n div 10) @ [''0123456789'' ! (n mod 10)])"

declare str_nat.simps [simp del]

section \<open>The world the script runs in\<close>

text \<open>
  The script reads a fixed endpoint, writes files and prints. The state it changes is a
  record: the lines printed to standard output and to standard error, the URLs requested so
  far, the directories created and the contents of the files written. What the network and
  the file system answer is the environment, which the model takes as a parameter.

  The metadata is taken as the script expects it: a JSON list of objects whose title and
  image, where present, are strings. Printing is taken to succeed.
\<close>

record film =
  \<comment> \<open>the two keys of a JSON object the script reads: \<^verbatim>\<open>film.get("title", ...)\<close> and
      \<^verbatim>\<open>film.get("image")\<close>; \<open>None\<close> is a missing key\<close>
  film_title :: "string option"
  film_image :: "string option"

record 'b response =
  status_code :: nat
  reason :: string
  final_url :: string
  body :: 'b

datatype exn =
    RequestException string  \<comment> \<open>caught by \<^verbatim>\<open>except requests.exceptions.RequestException\<close>\<close>
  | ValueError string        \<comment> \<open>caught by \<^verbatim>\<open>except ValueError\<close> only\<close>

datatype get_failure =
    Raised string            \<comment> \<open>\<^verbatim>\<open>requests.get\<close> raises a RequestException: no connection, timeout\<close>
  | Escaped string           \<comment> \<open>\<^verbatim>\<open>requests.get\<close> raises an exception that is no RequestException, as
                                 for a URL that urllib3 cannot parse (LocationParseError): the
                                 last line of the traceback\<close>

datatype fs_fault =
    OpenFails string         \<comment> \<open>\<^verbatim>\<open>open(filepath, 'wb')\<close> raises IOError: no file is made\<close>
  | WriteFails nat string    \<comment> \<open>\<^verbatim>\<open>f.write\<close> of the chunk with this index raises IOError\<close>

record env =
  \<comment> \<open>the metadata request: \<open>Inl\<close> when \<^verbatim>\<open>requests.get\<close> itself raises (no connection,
      timeout); else a response whose body is what \<^verbatim>\<open>response.json()\<close> does: the parsed
      list, or the exception of a body that is not JSON (a RequestException too in recent
      versions of the library, a plain ValueError in older ones)\<close>
  api_get :: "string + (exn + film list) response"
  \<comment> \<open>\<open>Some\<close> when \<^verbatim>\<open>os.makedirs\<close> raises: the text Python prints for the uncaught error\<close>
  makedirs_fault :: "string option"
  \<comment> \<open>the image request for a URL, when that many requests were made before it: the
      exception \<^verbatim>\<open>requests.get\<close> raises, or a response whose body is the chunks that
      arrive and, if the stream breaks after them, the error\<close>
  image_get :: "nat \<Rightarrow> string \<Rightarrow> get_failure + (string list \<times> string option) response"
  \<comment> \<open>what goes wrong when the file at a path is written for that same request, if
      anything\<close>
  file_fault :: "nat \<Rightarrow> string \<Rightarrow> fs_fault option"

record world =
  stdout :: "string list"
  stderr :: "string list"
  requests :: "string list"
  dirs :: "string set"
  files :: "string \<rightharpoonup> string"

definition print_out :: "string \<Rightarrow> world \<Rightarrow> world" where
  "print_out line w = w\<lparr>stdout := stdout w @ [line]\<rparr>"

definition print_err :: "string \<Rightarrow> world \<Rightarrow> world" where
  "print_err line w = w\<lparr>stderr := stderr w @ [line]\<rparr>"

definition raise_for_status :: "'b response \<Rightarrow> string option" where
  \<comment> \<open>\<^verbatim>\<open>response.raise_for_status()\<close> of the requests library, of which the script says
      "Raise an exception for bad status codes (4xx or 5xx)": the message of the HTTPError
      raised, or \<open>None\<close> when nothing is raised\<close>
  "raise_for_status r =
     (if 400 \<le> status_code r \<and> status_code r < 500
      then Some (str_nat (status_code r) @ '' Client Error: '' @ reason r
                 @ '' for url: '' @ final_url r)
      else if 500 \<le> status_code r \<and> status_code r < 600
      then Some (str_nat (status_code r) @ '' Server Error: '' @ reason r
                 @ '' for url: '' @ final_url r)
      else None)"

section \<open>Downloading one image\<close>

fun write_chunks ::
  "fs_fault option \<Rightarrow> nat \<Rightarrow> string list \<Rightarrow> string \<Rightarrow> string \<times> string option" where
  \<comment> \<open>\<^verbatim>\<open>for chunk in response.iter_content(chunk_size=8192): f.write(chunk)\<close>: the file's
      content after the loop, and the message of the IOError when a write failed\<close>
  "write_chunks fault i [] content = (content, None)"
| "write_chunks fault i (chunk # rest) content =
     (case fault of
        Some (WriteFails j msg) \<Rightarrow>
          if j = i then (content, Some msg)
          else write_chunks fault (Suc i) rest (content @ chunk)
      | _ \<Rightarrow> write_chunks fault (Suc i) rest (content @ chunk))"

text \<open>
  \<^verbatim>\<open>download_image\<close> catches RequestException and IOError and nothing else. An exception
  of another class leaves the function, and with it the loop and the program: Python prints
  the traceback on standard error and the process ends with exit code 1. Two such exceptions
  are in the model: the one \<^verbatim>\<open>requests.get\<close> lets through, which the environment decides,
  and the ValueError that \<^verbatim>\<open>open\<close> raises for a path with a NUL character, which the
  sanitizer keeps in a title. The result is \<open>Inl\<close> with the last line of the traceback for
  an exception that leaves the function, and \<open>Inr\<close> with the value returned otherwise.
\<close>

definition download_image ::
  "env \<Rightarrow> string \<Rightarrow> string \<Rightarrow> world \<Rightarrow> (string + bool) \<times> world" where
  "download_image e url filepath w =
     (let k = length (requests w);
          w1 = w\<lparr>requests := requests w @ [url]\<rparr>
      in case image_get e k url of
           Inl (Escaped traceback) \<Rightarrow> (Inl traceback, w1)
         | Inl (Raised msg) \<Rightarrow>
             (Inr False, print_err (''Error downloading '' @ url @ '': '' @ msg) w1)
         | Inr r \<Rightarrow>
             (case raise_for_status r of
                Some msg \<Rightarrow>
                  (Inr False, print_err (''Error downloading '' @ url @ '': '' @ msg) w1)
              | None \<Rightarrow>
                  if CHR 0x00 \<in> set filepath
                  then (Inl ''ValueError: embedded null byte'', w1)
                  else
                  (case file_fault e k filepath of
                     Some (OpenFails msg) \<Rightarrow>
                       (Inr False,
                        print_err (''Error writing file '' @ filepath @ '': '' @ msg) w1)
                   | fault \<Rightarrow>
                       (let written = write_chunks fault 0 (fst (body r)) [];
                            w2 = w1\<lparr>files := (files w1)(filepath \<mapsto> fst written)\<rparr>
                        in case snd written of
                             Some msg \<Rightarrow>
                               (Inr False,
                                print_err (''Error writing file '' @ filepath @ '': '' @ msg) w2)
                           | None \<Rightarrow>
                               (case snd (body r) of
                                  Some msg \<Rightarrow>
                                    (Inr False,
                                     print_err (''Error downloading '' @ url @ '': '' @ msg) w2)
                                | None \<Rightarrow>
                                    (Inr True,
                                     print_out (''Successfully downloaded: '' @ basename filepath)
                                       w2))))))"

section \<open>The pipeline\<close>

definition API_URL :: string where
  "API_URL = ''https://ghibliapi.vercel.app/films''"

definition DOWNLOAD_DIR :: string where
  "DOWNLOAD_DIR = ''ghibli_movie_images''"

record loop_state =
  download_count :: nat
  error_count :: nat
  the_world :: world

definition file_extension :: "string \<Rightarrow> string" where
  \<comment> \<open>\<^verbatim>\<open>file_extension = os.path.splitext(image_url)[1]\<close>, and \<^verbatim>\<open>".jpg"\<close> when that is empty\<close>
  "file_extension image_url =
     (let ext = snd (splitext image_url) in if ext = [] then ''.jpg'' else ext)"

definition filepath_of :: "string \<Rightarrow> string \<Rightarrow> string" where
  \<comment> \<open>\<^verbatim>\<open>os.path.join(DOWNLOAD_DIR, f"{base_filename}{file_extension}")\<close>\<close>
  "filepath_of title image_url =
     path_join DOWNLOAD_DIR (sanitize_filename title @ file_extension image_url)"

definition get_title :: "film \<Rightarrow> string" where
  \<comment> \<open>\<^verbatim>\<open>film.get("title", "unknown_title")\<close>\<close>
  "get_title f = (case film_title f of None \<Rightarrow> ''unknown_title'' | Some t \<Rightarrow> t)"

definition has_image :: "film \<Rightarrow> bool" where
  \<comment> \<open>the negation of \<^verbatim>\<open>not image_url\<close>: the key is there and its string is not empty\<close>
  "has_image f = (case film_image f of None \<Rightarrow> False | Some u \<Rightarrow> u \<noteq> [])"

definition process_film :: "env \<Rightarrow> film \<Rightarrow> loop_state \<Rightarrow> (string \<times> world) + loop_state" where
  \<comment> \<open>the body of \<^verbatim>\<open>for film in films\<close>: \<open>Inr\<close> with the state for the next record, or
      \<open>Inl\<close> when an exception leaves \<^verbatim>\<open>download_image\<close>, with its traceback and the
      world at that point\<close>
  "process_film e f st =
     (let title = get_title f;
          image_url = film_image f
      in if image_url = None \<or> image_url = Some []
         then Inr (st\<lparr>the_world :=
                   print_err (''Warning: No image URL found for film: '' @ title) (the_world st)\<rparr>)
         else
           (let url = the image_url;
                filepath = filepath_of title url;
                w1 = print_out (CHR 0x0A # ''Attempting to download image for: '' @ title)
                       (the_world st);
                w2 = print_out (''Image URL: '' @ url) w1;
                w3 = print_out (''Saving to: '' @ filepath) w2;
                res = download_image e url filepath w3
            in case fst res of
                 Inl traceback \<Rightarrow> Inl (traceback, snd res)
               | Inr ok \<Rightarrow>
                   if ok
                   then Inr (st\<lparr>download_count := download_count st + 1, the_world := snd res\<rparr>)
                   else Inr (st\<lparr>error_count := error_count st + 1, the_world := snd res\<rparr>)))"

fun download_loop :: "env \<Rightarrow> film list \<Rightarrow> loop_state \<Rightarrow> (string \<times> world) + loop_state" where
  \<comment> \<open>\<^verbatim>\<open>for film in films\<close>: the state after the last record, or the exception that
      ended the loop before\<close>
  "download_loop e [] st = Inr st"
| "download_loop e (f # fs) st =
     (case process_film e f st of
        Inl uncaught \<Rightarrow> Inl uncaught
      | Inr st' \<Rightarrow> download_loop e fs st')"

definition report :: "loop_state \<Rightarrow> world" where
  \<comment> \<open>the prints after the loop\<close>
  "report st =
     (let w1 = print_out (CHR 0x0A # ''--- Download Complete ---'') (the_world st);
          w2 = print_out (''Successfully downloaded '' @ str_nat (download_count st)
                          @ '' images.'') w1
      in if error_count st > 0
         then print_out (''Failed to download '' @ str_nat (error_count st) @ '' images.'') w2
         else w2)"

definition fetch_films :: "env \<Rightarrow> exn + film list" where
  \<comment> \<open>the three calls of the \<^verbatim>\<open>try\<close> block: the exception that leaves it, or the list\<close>
  "fetch_films e =
     (case api_get e of
        Inl msg \<Rightarrow> Inl (RequestException msg)
      | Inr r \<Rightarrow>
          (case raise_for_status r of
             Some msg \<Rightarrow> Inl (RequestException msg)
           | None \<Rightarrow> body r))"

definition fetch_and_download_ghibli_images :: "env \<Rightarrow> world \<Rightarrow> world \<times> nat" where
  \<comment> \<open>the world the run leaves and the exit code of the process\<close>
  "fetch_and_download_ghibli_images e w =
     (let w1 = print_out (''Fetching film data from '' @ API_URL @ ''...'') w;
          w2 = w1\<lparr>requests := requests w1 @ [API_URL]\<rparr>
      in case fetch_films e of
           Inl (RequestException msg) \<Rightarrow>
             (print_err (''Error fetching data from API: '' @ msg) w2, 1)
         | Inl (ValueError msg) \<Rightarrow>
             (print_err (''Error parsing JSON response: '' @ msg) w2, 1)
         | Inr films \<Rightarrow>
             (let w3 = print_out (''Found '' @ str_nat (length films) @ '' films.'') w2
              in case makedirs_fault e of
                   Some traceback \<Rightarrow> (print_err traceback w3, 1)
                 | None \<Rightarrow>
                     (let w4 = w3\<lparr>dirs := insert DOWNLOAD_DIR (dirs w3)\<rparr>;
                          w5 = print_out (''Images will be saved in directory: ''
                                          @ [CHR 0x27] @ DOWNLOAD_DIR @ [CHR 0x27]) w4;
                          st = \<lparr>download_count = 0, error_count = 0, the_world = w5\<rparr>
                      in case download_loop e films st of
                           Inl (traceback, w6) \<Rightarrow> (print_err traceback w6, 1)
                         | Inr st' \<Rightarrow> (report st', 0))))"

section \<open>Notions used to state the properties\<close>

text \<open>
  The state in which the loop is entered, when the metadata request gave a list and the
  directory could be made: the prints, the request and the directory of lines 46 to 63 of
  the script, and both counters at zero.
\<close>

definition loop_start :: "film list \<Rightarrow> world \<Rightarrow> loop_state" where
  "loop_start films w =
     (let w1 = print_out (''Fetching film data from '' @ API_URL @ ''...'') w;
          w2 = w1\<lparr>requests := requests w1 @ [API_URL]\<rparr>;
          w3 = print_out (''Found '' @ str_nat (length films) @ '' films.'') w2;
          w4 = w3\<lparr>dirs := insert DOWNLOAD_DIR (dirs w3)\<rparr>;
          w5 = print_out (''Images will be saved in directory: ''
                          @ [CHR 0x27] @ DOWNLOAD_DIR @ [CHR 0x27]) w4
      in \<lparr>download_count = 0, error_count = 0, the_world = w5\<rparr>)"

text \<open>
  The last segment of a URL is the text after its last slash; the text after the last dot
  of a string is defined alike.
\<close>

definition last_segment :: "string \<Rightarrow> string" where
  "last_segment url = rev (takeWhile (\<lambda>c. c \<noteq> CHR ''/'') (rev url))"

definition after_last_dot :: "string \<Rightarrow> string" where
  "after_last_dot s = rev (takeWhile (\<lambda>c. c \<noteq> CHR ''.'') (rev s))"

text \<open>
  The extension as the specification words it, for comparison with \<open>file_extension\<close>:
  the text after the last dot of the last segment, with its dot as the default
  \<^verbatim>\<open>.jpg\<close> has it, and \<^verbatim>\<open>.jpg\<close> when the last segment has no dot.
\<close>

definition claimed_extension :: "string \<Rightarrow> string" where
  "claimed_extension url =
     (let seg = last_segment url
      in if CHR ''.'' \<in> set seg then CHR ''.'' # after_last_dot seg else ''.jpg'')"

section \<open>A sample run\<close>

text \<open>
  Five records: one with an image, one without the key, one with an empty string, one
  without a title, one whose URL has no extension. The environment answers the metadata
  request and the request for the fourth record's image with the status codes given, and
  every other request with 200.
\<close>

definition blank_world :: world where
  "blank_world = \<lparr>stdout = [], stderr = [], requests = [], dirs = {}, files = Map.empty\<rparr>"

definition film_castle :: film where
  "film_castle =
     \<lparr>film_title = Some ''Castle in the Sky'', film_image = Some ''https://example.org/a.jpg''\<rparr>"

definition film_totoro :: film where
  "film_totoro = \<lparr>film_title = Some ''My Neighbor Totoro'', film_image = None\<rparr>"

definition film_kiki :: film where
  "film_kiki = \<lparr>film_title = Some ''Kiki'', film_image = Some []\<rparr>"

definition film_untitled :: film where
  "film_untitled = \<lparr>film_title = None, film_image = Some ''https://example.org/b.png''\<rparr>"

definition film_ponyo :: film where
  "film_ponyo = \<lparr>film_title = Some ''Ponyo'', film_image = Some ''https://example.org/c''\<rparr>"

definition sample_films :: "film list" where
  "sample_films = [film_castle, film_totoro, film_kiki, film_untitled, film_ponyo]"

definition sample_response :: "nat \<Rightarrow> string \<Rightarrow> 'b \<Rightarrow> 'b response" where
  "sample_response code u b = \<lparr>status_code = code, reason = ''Reason'', final_url = u, body = b\<rparr>"

definition env_of :: "film list \<Rightarrow> nat \<Rightarrow> nat \<Rightarrow> env" where
  "env_of films api_status b_status =
     \<lparr>api_get = Inr (sample_response api_status API_URL (Inr films)),
      makedirs_fault = None,
      image_get = (\<lambda>k u. Inr (sample_response
                     (if u = ''https://example.org/b.png'' then b_status else 200) u
                     ([''PNG'', ''data''], None))),
      file_fault = (\<lambda>k p. None)\<rparr>"

definition sample_env :: "nat \<Rightarrow> nat \<Rightarrow> env" where
  "sample_env api_status b_status = env_of sample_films api_status b_status"

text \<open>A record whose title has a NUL character, which the sanitizer keeps.\<close>

definition film_nul :: film where
  "film_nul =
     \<lparr>film_title = Some [CHR ''a'', CHR 0x00, CHR ''b''],
      film_image = Some ''https://example.org/n.jpg''\<rparr>"

section \<open>Properties of the sanitizer\<close>

lemma underscore_run_iff:
  "underscore_run s \<longleftrightarrow> (\<exists>xs ys. s = xs @ CHR ''_'' # CHR ''_'' # ys)"
proof (induction s rule: underscore_run.induct)
  case 1
  show ?case by simp
next
  case (2 c)
  show ?case by (simp add: append_eq_Cons_conv)
next
  case (3 c d s)
  show ?case
  proof
    assume "underscore_run (c # d # s)"
    then consider "c = CHR ''_'' \<and> d = CHR ''_''" | "underscore_run (d # s)" by auto
    then show "\<exists>xs ys. c # d # s = xs @ CHR ''_'' # CHR ''_'' # ys"
    proof cases
      case 1
      then have "c # d # s = [] @ CHR ''_'' # CHR ''_'' # s" by simp
      then show ?thesis by blast
    next
      case 2
      with 3 obtain xs ys where "d # s = xs @ CHR ''_'' # CHR ''_'' # ys" by blast
      then have "c # d # s = (c # xs) @ CHR ''_'' # CHR ''_'' # ys" by simp
      then show ?thesis by blast
    qed
  next
    assume "\<exists>xs ys. c # d # s = xs @ CHR ''_'' # CHR ''_'' # ys"
    then obtain xs ys where eq: "c # d # s = xs @ CHR ''_'' # CHR ''_'' # ys" by blast
    show "underscore_run (c # d # s)"
    proof (cases xs)
      case Nil
      with eq show ?thesis by simp
    next
      case (Cons x xs')
      with eq have "d # s = xs' @ CHR ''_'' # CHR ''_'' # ys" by simp
      with 3 have "underscore_run (d # s)" by blast
      then show ?thesis by simp
    qed
  qed
qed

lemma underscore_run_rev: "underscore_run (rev s) = underscore_run s"
proof -
  have "underscore_run (rev t)" if "underscore_run t" for t
  proof -
    from that obtain xs ys where "t = xs @ CHR ''_'' # CHR ''_'' # ys"
      unfolding underscore_run_iff by blast
    then have "rev t = rev ys @ CHR ''_'' # CHR ''_'' # rev xs" by simp
    then show ?thesis unfolding underscore_run_iff by blast
  qed
  from this [of s] this [of "rev s"] show ?thesis by auto
qed

lemma underscore_run_suffix: "underscore_run t \<Longrightarrow> underscore_run (p @ t)"
proof -
  assume "underscore_run t"
  then obtain xs ys where "t = xs @ CHR ''_'' # CHR ''_'' # ys"
    unfolding underscore_run_iff by blast
  then have "p @ t = (p @ xs) @ CHR ''_'' # CHR ''_'' # ys" by simp
  then show ?thesis unfolding underscore_run_iff by blast
qed

lemma underscore_run_dropWhile: "underscore_run (dropWhile P s) \<Longrightarrow> underscore_run s"
  using underscore_run_suffix [of "dropWhile P s" "takeWhile P s"] by simp

lemma underscore_run_strip: "underscore_run (strip_underscores s) \<Longrightarrow> underscore_run s"
  unfolding strip_underscores_def
  by (metis underscore_run_dropWhile underscore_run_rev)

lemma collapse_head: "\<exists>t. collapse_underscores (d # s) = d # t"
  by (induction s arbitrary: d) auto

lemma collapse_no_run: "\<not> underscore_run (collapse_underscores s)"
proof (induction s rule: collapse_underscores.induct)
  case (3 c d s)
  obtain t where t: "collapse_underscores (d # s) = d # t"
    using collapse_head by blast
  with 3 show ?case by auto
qed simp_all

lemma set_collapse: "set (collapse_underscores s) \<subseteq> set s"
  by (induction s rule: collapse_underscores.induct) auto

lemma set_strip: "set (strip_underscores s) \<subseteq> set s"
  unfolding strip_underscores_def
  by (auto dest!: set_dropWhileD)

lemma set_replace_spaces: "set (replace_spaces s) \<subseteq> insert CHR ''_'' (set s) - {CHR '' ''}"
  unfolding replace_spaces_def by auto

lemma underscore_valid: "CHR ''_'' \<notin> set invalid_chars"
  by (simp add: invalid_chars_def)

lemma set_remove_invalid: "set (remove_invalid s) \<inter> set invalid_chars = {}"
  unfolding remove_invalid_def by auto

lemma set_sanitize:
  "set (sanitize_filename s) \<subseteq> insert CHR ''_'' (set (remove_invalid s)) - {CHR '' ''}"
  unfolding sanitize_filename_def
  using set_strip set_collapse set_replace_spaces by blast

lemma sanitize_no_invalid: "set (sanitize_filename s) \<inter> set invalid_chars = {}"
  using set_sanitize [of s] set_remove_invalid [of s] underscore_valid by blast

lemma sanitize_no_space: "CHR '' '' \<notin> set (sanitize_filename s)"
  using set_sanitize [of s] by blast

lemma sanitize_no_run: "\<not> underscore_run (sanitize_filename s)"
  unfolding sanitize_filename_def
  using underscore_run_strip collapse_no_run by blast

lemma starts_with_dropWhile: "\<not> starts_with c (dropWhile (\<lambda>x. x = c) s)"
  by (induction s) (auto simp: starts_with_def)

lemma strip_no_trailing: "\<not> ends_with CHR ''_'' (strip_underscores s)"
  unfolding ends_with_def strip_underscores_def
  by (simp add: starts_with_dropWhile)

lemma starts_with_rev_dropWhile:
  "\<not> starts_with c s \<Longrightarrow> \<not> starts_with c (rev (dropWhile P (rev s)))"
proof (induction s rule: rev_induct)
  case Nil
  then show ?case by simp
next
  case (snoc x xs)
  then show ?case
    by (cases xs) (auto simp: starts_with_def split: list.splits)
qed

lemma strip_no_leading: "\<not> starts_with CHR ''_'' (strip_underscores s)"
  unfolding strip_underscores_def
  by (rule starts_with_rev_dropWhile) (rule starts_with_dropWhile)

lemma collapse_id: "\<not> underscore_run s \<Longrightarrow> collapse_underscores s = s"
  by (induction s rule: collapse_underscores.induct) auto

lemma dropWhile_id: "\<not> starts_with c s \<Longrightarrow> dropWhile (\<lambda>x. x = c) s = s"
  by (cases s) (auto simp: starts_with_def)

lemma strip_id:
  "\<not> starts_with CHR ''_'' s \<Longrightarrow> \<not> ends_with CHR ''_'' s \<Longrightarrow> strip_underscores s = s"
  unfolding strip_underscores_def ends_with_def
  by (simp add: dropWhile_id)

lemma remove_invalid_id: "set s \<inter> set invalid_chars = {} \<Longrightarrow> remove_invalid s = s"
  unfolding remove_invalid_def by (rule filter_True) blast

lemma replace_spaces_id: "CHR '' '' \<notin> set s \<Longrightarrow> replace_spaces s = s"
  unfolding replace_spaces_def by (rule map_idI) auto

section \<open>The claims about the sanitizer\<close>

text \<open>
  Claim C1. For every input string, the output of the filename sanitizer contains none of
  the nine characters of the character class (backslash, slash, colon, star, question mark,
  double quote, less, greater, bar), has no two underscores next to each other, and neither
  starts nor ends with an underscore.
\<close>

theorem sanitize_filename_safe:
  "set (sanitize_filename s) \<inter> set invalid_chars = {}
   \<and> \<not> underscore_run (sanitize_filename s)
   \<and> \<not> starts_with CHR ''_'' (sanitize_filename s)
   \<and> \<not> ends_with CHR ''_'' (sanitize_filename s)"
proof -
  have "\<not> starts_with CHR ''_'' (sanitize_filename s)"
    unfolding sanitize_filename_def by (rule strip_no_leading)
  moreover have "\<not> ends_with CHR ''_'' (sanitize_filename s)"
    unfolding sanitize_filename_def by (rule strip_no_trailing)
  ultimately show ?thesis
    using sanitize_no_invalid sanitize_no_run by blast
qed

theorem sanitize_filename_safe_witness:
  "sanitize_filename '' /_a: _ b__ '' = ''a_b''
   \<and> set (sanitize_filename '' /_a: _ b__ '') \<inter> set invalid_chars = {}
   \<and> \<not> underscore_run (sanitize_filename '' /_a: _ b__ '')
   \<and> \<not> starts_with CHR ''_'' (sanitize_filename '' /_a: _ b__ '')
   \<and> \<not> ends_with CHR ''_'' (sanitize_filename '' /_a: _ b__ '')"
proof -
  have "sanitize_filename '' /_a: _ b__ '' = ''a_b''" by code_simp
  with sanitize_filename_safe [of "'' /_a: _ b__ ''"] show ?thesis by simp
qed

text \<open>
  Claim C6. The filename sanitizer is idempotent: applied to its own output, it returns
  that output unchanged.
\<close>

theorem sanitize_filename_idempotent:
  "sanitize_filename (sanitize_filename s) = sanitize_filename s"
proof -
  let ?t = "sanitize_filename s"
  have 1: "remove_invalid ?t = ?t"
    by (rule remove_invalid_id) (rule sanitize_no_invalid)
  have 2: "replace_spaces ?t = ?t"
    by (rule replace_spaces_id) (rule sanitize_no_space)
  have 3: "collapse_underscores ?t = ?t"
    by (rule collapse_id) (rule sanitize_no_run)
  have 4: "strip_underscores ?t = ?t"
    unfolding sanitize_filename_def
    by (rule strip_id) (rule strip_no_leading, rule strip_no_trailing)
  have "sanitize_filename ?t
          = strip_underscores (collapse_underscores (replace_spaces (remove_invalid ?t)))"
    by (simp only: sanitize_filename_def)
  also have "\<dots> = ?t" by (simp only: 1 2 3 4)
  finally show ?thesis .
qed

theorem sanitize_filename_idempotent_witness:
  "sanitize_filename ''__Spirited  Away?_'' = ''Spirited_Away''
   \<and> sanitize_filename (sanitize_filename ''__Spirited  Away?_'') = ''Spirited_Away''"
proof -
  have "sanitize_filename ''__Spirited  Away?_'' = ''Spirited_Away''" by code_simp
  with sanitize_filename_idempotent [of "''__Spirited  Away?_''"] show ?thesis by simp
qed

text \<open>
  Claim C7. The sanitizer applied to the title "Castle in the Sky: Part 1" returns exactly
  "Castle_in_the_Sky_Part_1": the colon is removed, each space becomes an underscore, and
  no double underscore appears.
\<close>

theorem sanitize_castle_in_the_sky:
  "sanitize_filename ''Castle in the Sky: Part 1'' = ''Castle_in_the_Sky_Part_1''"
  by code_simp

section \<open>The extension taken from the URL\<close>

lemma rfind_absent: "c \<notin> set p \<Longrightarrow> rfind p c = - 1"
  by (simp add: rfind_def)

lemma rfind_last: "c \<notin> set ys \<Longrightarrow> rfind (xs @ c # ys) c = int (length xs)"
proof -
  assume "c \<notin> set ys"
  then have "takeWhile (\<lambda>x. x \<noteq> c) (rev ys @ c # rev xs) = rev ys"
    by (induction ys rule: rev_induct) auto
  then show ?thesis by (simp add: rfind_def)
qed

lemma rfind_less: "rfind p c < int (length p)"
  by (simp add: rfind_def)

lemma scan_end: "\<not> f < d \<Longrightarrow> splitext_scan p f d = (p, [])"
  by (simp add: splitext_scan.simps)

lemma scan_hit:
  assumes "0 \<le> f" and "f < d" and "nat f < length p" and "p ! nat f \<noteq> CHR ''.''"
  shows "splitext_scan p f d = (take (nat d) p, drop (nat d) p)"
proof -
  from assms(3) have "take 1 (drop (nat f) p) = [p ! nat f]"
    by (simp add: Cons_nth_drop_Suc [symmetric])
  with assms show ?thesis
    by (subst splitext_scan.simps) simp
qed

lemma scan_dots:
  assumes "set dots \<subseteq> {CHR ''.''}" and "int (length pre + length dots) \<le> d"
  shows "splitext_scan (pre @ dots @ rest) (int (length pre)) d
           = splitext_scan (pre @ dots @ rest) (int (length pre + length dots)) d"
  using assms
proof (induction dots arbitrary: pre)
  case Nil
  then show ?case by simp
next
  case (Cons x dots)
  from Cons.prems have x: "x = CHR ''.''" by simp
  have "splitext_scan (pre @ (x # dots) @ rest) (int (length pre)) d
          = splitext_scan (pre @ (x # dots) @ rest) (int (length pre) + 1) d"
    using Cons.prems x by (subst splitext_scan.simps) simp
  also have "\<dots> = splitext_scan ((pre @ [x]) @ dots @ rest) (int (length (pre @ [x]))) d"
    by (simp add: add.commute)
  also have "\<dots> = splitext_scan ((pre @ [x]) @ dots @ rest)
                      (int (length (pre @ [x]) + length dots)) d"
    using Cons.prems by (intro Cons.IH) auto
  finally show ?case by simp
qed


lemma rfind_append_absent: "c \<notin> set ys \<Longrightarrow> rfind (xs @ ys) c = rfind xs c"
proof (cases "c \<in> set xs")
  case True
  assume ys: "c \<notin> set ys"
  from True obtain a b where xs: "xs = a @ c # b" and b: "c \<notin> set b"
    by (auto dest: split_list_last)
  from ys b have "rfind (a @ c # (b @ ys)) c = int (length a)"
    by (intro rfind_last) simp
  moreover from b have "rfind (a @ c # b) c = int (length a)"
    by (rule rfind_last)
  ultimately show ?thesis by (simp add: xs)
next
  case False
  assume "c \<notin> set ys"
  with False show ?thesis by (simp add: rfind_absent)
qed

lemma after_last_dot_last: "CHR ''.'' \<notin> set e \<Longrightarrow> after_last_dot (m @ CHR ''.'' # e) = e"
proof -
  assume "CHR ''.'' \<notin> set e"
  then have "takeWhile (\<lambda>c. c \<noteq> CHR ''.'') (rev e @ CHR ''.'' # rev m) = rev e"
    by (induction e rule: rev_induct) auto
  then show ?thesis by (simp add: after_last_dot_def)
qed

lemma rfind_sep:
  assumes "CHR ''/'' \<notin> set seg" and "pre = [] \<or> (\<exists>q. pre = q @ ''/'')"
  shows "rfind (pre @ seg) CHR ''/'' = int (length pre) - 1"
proof (cases "pre = []")
  case True
  with assms(1) show ?thesis by (simp add: rfind_absent)
next
  case False
  with assms(2) obtain q where q: "pre = q @ ''/''" by blast
  from assms(1) have "rfind (q @ CHR ''/'' # seg) CHR ''/'' = int (length q)"
    by (rule rfind_last)
  then show ?thesis by (simp add: q)
qed

lemma splitext_segment:
  assumes noslash: "CHR ''/'' \<notin> set seg" and pre: "pre = [] \<or> (\<exists>q. pre = q @ ''/'')"
  shows "snd (splitext (pre @ seg))
           = (if CHR ''.'' \<in> set (dropWhile (\<lambda>c. c = CHR ''.'') seg)
              then CHR ''.'' # after_last_dot seg else [])"
proof -
  let ?p = "pre @ seg"
  define dots where "dots = takeWhile (\<lambda>c. c = CHR ''.'') seg"
  define stem where "stem = dropWhile (\<lambda>c. c = CHR ''.'') seg"
  have seg: "seg = dots @ stem" by (simp add: dots_def stem_def)
  have dots: "set dots \<subseteq> {CHR ''.''}"
    by (auto simp: dots_def dest: set_takeWhileD)
  have sep: "rfind ?p CHR ''/'' = int (length pre) - 1"
    using noslash pre by (rule rfind_sep)
  show ?thesis
  proof (cases "CHR ''.'' \<in> set stem")
    case True
    then obtain m e where stem: "stem = m @ CHR ''.'' # e" and e: "CHR ''.'' \<notin> set e"
      by (auto dest: split_list_last)
    have "stem \<noteq> []" using stem by simp
    then have "hd stem \<noteq> CHR ''.''"
      unfolding stem_def by (metis (mono_tags, lifting) hd_dropWhile)
    with stem obtain x m' where m: "m = x # m'" and x: "x \<noteq> CHR ''.''"
      by (cases m) auto
    let ?d = "int (length pre + length dots + 1 + length m')"
    have p: "?p = (pre @ dots @ x # m') @ CHR ''.'' # e"
      by (simp add: seg stem m)
    have dot: "rfind ?p CHR ''.'' = ?d"
      unfolding p using e by (subst rfind_last) simp_all
    have "splitext ?p = splitext_scan ?p (int (length pre)) ?d"
      using sep dot by (simp add: splitext_def Let_def)
    also have "\<dots> = splitext_scan (pre @ dots @ stem) (int (length pre)) ?d"
      by (simp add: seg)
    also have "\<dots> = splitext_scan (pre @ dots @ stem) (int (length pre + length dots)) ?d"
      using dots by (rule scan_dots) simp
    also have "\<dots> = (take (nat ?d) (pre @ dots @ stem), drop (nat ?d) (pre @ dots @ stem))"
    proof (rule scan_hit)
      show "nat (int (length pre + length dots)) < length (pre @ dots @ stem)"
        by (simp add: stem)
      have "pre @ dots @ stem = (pre @ dots) @ x # (m' @ CHR ''.'' # e)"
        by (simp add: stem m)
      then have "(pre @ dots @ stem) ! length (pre @ dots) = x"
        by (simp only: nth_append_length)
      moreover have "nat (int (length pre + length dots)) = length (pre @ dots)"
        by simp
      ultimately show "(pre @ dots @ stem) ! nat (int (length pre + length dots)) \<noteq> CHR ''.''"
        using x by (simp only:) simp
    qed simp_all
    finally have "snd (splitext ?p) = drop (nat ?d) (pre @ dots @ stem)" by simp
    moreover have "nat ?d = length (pre @ dots @ x # m')" by simp
    moreover have "pre @ dots @ stem = (pre @ dots @ x # m') @ CHR ''.'' # e"
      by (simp add: stem m)
    ultimately have "snd (splitext ?p)
        = drop (length (pre @ dots @ x # m')) ((pre @ dots @ x # m') @ CHR ''.'' # e)"
      by (simp only:)
    also have "\<dots> = CHR ''.'' # e" by (rule append_eq_conv_conj [THEN iffD1, THEN conjunct2, OF refl, symmetric])
    finally have ext: "snd (splitext ?p) = CHR ''.'' # e" .
    have "after_last_dot seg = after_last_dot ((dots @ m) @ CHR ''.'' # e)"
      by (simp add: seg stem)
    also have "\<dots> = e" using e by (rule after_last_dot_last)
    finally show ?thesis using True ext by (simp add: stem_def)
  next
    case False
    show ?thesis
    proof (cases "dots = []")
      case True
      with False have nodot: "CHR ''.'' \<notin> set seg" by (simp add: seg)
      then have "rfind ?p CHR ''.'' = rfind pre CHR ''.''" by (rule rfind_append_absent)
      also have "\<dots> \<le> int (length pre) - 1" using rfind_less [of pre "CHR ''.''"] by simp
      finally have "\<not> rfind ?p CHR ''.'' > rfind ?p CHR ''/''" using sep by simp
      then have "splitext ?p = (?p, [])" by (simp add: splitext_def Let_def)
      with False show ?thesis by (simp add: stem_def)
    next
      case nonempty: False
      then obtain ds where ds: "dots = ds @ ''.''"
        using dots by (cases dots rule: rev_cases) auto
      let ?d = "int (length pre + length ds)"
      have p: "?p = (pre @ ds) @ CHR ''.'' # stem" by (simp add: seg ds)
      have dot: "rfind ?p CHR ''.'' = ?d"
        unfolding p using False by (subst rfind_last) simp_all
      have "splitext ?p = splitext_scan ?p (int (length pre)) ?d"
        using sep dot by (simp add: splitext_def Let_def)
      also have "\<dots> = splitext_scan (pre @ ds @ CHR ''.'' # stem) (int (length pre)) ?d"
        by (simp add: seg ds)
      also have "\<dots> = splitext_scan (pre @ ds @ CHR ''.'' # stem) (int (length pre + length ds)) ?d"
        using dots by (intro scan_dots) (auto simp: ds)
      also have "\<dots> = (pre @ ds @ CHR ''.'' # stem, [])" by (rule scan_end) simp
      finally have "snd (splitext ?p) = []" by simp
      with False show ?thesis by (simp add: stem_def)
    qed
  qed
qed

lemma url_segments:
  "url = rev (dropWhile (\<lambda>c. c \<noteq> CHR ''/'') (rev url)) @ last_segment url"
  unfolding last_segment_def
  by (metis rev_append rev_rev_ident takeWhile_dropWhile_id)

lemma last_segment_no_slash: "CHR ''/'' \<notin> set (last_segment url)"
  unfolding last_segment_def by (auto dest: set_takeWhileD)

lemma url_prefix_ends_with_slash:
  "rev (dropWhile (\<lambda>c. c \<noteq> CHR ''/'') (rev url)) = []
   \<or> (\<exists>q. rev (dropWhile (\<lambda>c. c \<noteq> CHR ''/'') (rev url)) = q @ ''/'')"
proof (cases "dropWhile (\<lambda>c. c \<noteq> CHR ''/'') (rev url)")
  case Nil
  then show ?thesis by simp
next
  case (Cons x xs)
  then have "x = CHR ''/''"
    using hd_dropWhile [of "\<lambda>c. c \<noteq> CHR ''/''" "rev url"] by auto
  with Cons show ?thesis by simp
qed

lemma splitext_ext:
  "snd (splitext url)
     = (if CHR ''.'' \<in> set (dropWhile (\<lambda>c. c = CHR ''.'') (last_segment url))
        then CHR ''.'' # after_last_dot (last_segment url) else [])"
proof -
  have "snd (splitext (rev (dropWhile (\<lambda>c. c \<noteq> CHR ''/'') (rev url)) @ last_segment url))
     = (if CHR ''.'' \<in> set (dropWhile (\<lambda>c. c = CHR ''.'') (last_segment url))
        then CHR ''.'' # after_last_dot (last_segment url) else [])"
    using last_segment_no_slash url_prefix_ends_with_slash by (rule splitext_segment)
  then show ?thesis by (simp only: url_segments [symmetric])
qed

lemma file_extension_eq:
  "file_extension url
     = (if CHR ''.'' \<in> set (dropWhile (\<lambda>c. c = CHR ''.'') (last_segment url))
        then CHR ''.'' # after_last_dot (last_segment url) else ''.jpg'')"
  by (simp add: file_extension_def Let_def splitext_ext)

lemma file_extension_starts_with_dot: "\<exists>t. file_extension url = CHR ''.'' # t"
  by (simp add: file_extension_eq)

lemma sanitize_no_slash: "CHR ''/'' \<notin> set (sanitize_filename s)"
  using sanitize_no_invalid [of s] by (auto simp: invalid_chars_def)

lemma filepath_of_eq:
  "filepath_of title url = DOWNLOAD_DIR @ ''/'' @ sanitize_filename title @ file_extension url"
proof -
  obtain t where ext: "file_extension url = CHR ''.'' # t"
    using file_extension_starts_with_dot by blast
  have "take 1 (sanitize_filename title @ file_extension url) \<noteq> ''/''"
  proof (cases "sanitize_filename title")
    case Nil
    then show ?thesis by (simp add: ext)
  next
    case (Cons x xs)
    with sanitize_no_slash [of title] show ?thesis by auto
  qed
  then show ?thesis
    by (simp add: filepath_of_def path_join_def DOWNLOAD_DIR_def)
qed

text \<open>
  Claim C2, as the code has it. For every image URL, the extension appended to the
  sanitized title is what \<^verbatim>\<open>os.path.splitext\<close> gives for the whole URL string: the text
  from the last dot of the last segment to the end, the dot included, when a dot is left
  in that segment once its leading dots are dropped; and \<^verbatim>\<open>.jpg\<close> otherwise, that is
  when the segment has no dot or only leading ones. The file is written to the download
  directory under the sanitized title followed by that extension.
\<close>

theorem extension_of_image_url:
  "file_extension url
     = (if CHR ''.'' \<in> set (dropWhile (\<lambda>c. c = CHR ''.'') (last_segment url))
        then CHR ''.'' # after_last_dot (last_segment url) else ''.jpg'')
   \<and> filepath_of title url
     = DOWNLOAD_DIR @ ''/'' @ sanitize_filename title @ file_extension url"
  using file_extension_eq filepath_of_eq by (rule conjI)

theorem extension_of_image_url_witness:
  "(file_extension ''https://example.org/posters/castle.v2.png''
     = (if CHR ''.'' \<in> set (dropWhile (\<lambda>c. c = CHR ''.'')
                               (last_segment ''https://example.org/posters/castle.v2.png''))
        then CHR ''.'' # after_last_dot (last_segment ''https://example.org/posters/castle.v2.png'')
        else ''.jpg'')
   \<and> filepath_of ''Castle in the Sky'' ''https://example.org/posters/castle.v2.png''
     = DOWNLOAD_DIR @ ''/'' @ sanitize_filename ''Castle in the Sky''
         @ file_extension ''https://example.org/posters/castle.v2.png'')
   \<and> last_segment ''https://example.org/posters/castle.v2.png'' = ''castle.v2.png''
   \<and> file_extension ''https://example.org/posters/castle.v2.png'' = ''.png''
   \<and> file_extension ''https://example.org/posters/castle'' = ''.jpg''
   \<and> filepath_of ''Castle in the Sky'' ''https://example.org/posters/castle.v2.png''
     = ''ghibli_movie_images/Castle_in_the_Sky.png''"
proof -
  have "last_segment ''https://example.org/posters/castle.v2.png'' = ''castle.v2.png''
   \<and> file_extension ''https://example.org/posters/castle.v2.png'' = ''.png''
   \<and> file_extension ''https://example.org/posters/castle'' = ''.jpg''
   \<and> filepath_of ''Castle in the Sky'' ''https://example.org/posters/castle.v2.png''
     = ''ghibli_movie_images/Castle_in_the_Sky.png''"
    by code_simp
  with extension_of_image_url [of "''https://example.org/posters/castle.v2.png''"
         "''Castle in the Sky''"]
  show ?thesis by (rule conjI)
qed

text \<open>
  Claim C2 as the specification states it fails on a last segment that starts with its
  only dot: the segment \<^verbatim>\<open>.png\<close> has a dot, the text after it is \<^verbatim>\<open>png\<close>, and the code
  appends \<^verbatim>\<open>.jpg\<close>.
\<close>

theorem extension_leading_dot_counterexample:
  "last_segment ''https://example.org/posters/.png'' = ''.png''
   \<and> after_last_dot ''.png'' = ''png''
   \<and> claimed_extension ''https://example.org/posters/.png'' = ''.png''
   \<and> file_extension ''https://example.org/posters/.png'' = ''.jpg''
   \<and> filepath_of ''Ponyo'' ''https://example.org/posters/.png''
       = ''ghibli_movie_images/Ponyo.jpg''"
  by code_simp

section \<open>Properties of the pipeline\<close>

lemma process_film_skip:
  "\<not> has_image f \<Longrightarrow>
   process_film e f st =
     Inr (st\<lparr>the_world :=
          print_err (''Warning: No image URL found for film: '' @ get_title f) (the_world st)\<rparr>)"
  by (auto simp: process_film_def has_image_def Let_def split: option.splits)

lemma process_film_download:
  assumes "film_image f = Some url" and "url \<noteq> []"
  shows "process_film e f st =
     (let res = download_image e url (filepath_of (get_title f) url)
                  (print_out (''Saving to: '' @ filepath_of (get_title f) url)
                    (print_out (''Image URL: '' @ url)
                      (print_out (CHR 0x0A # ''Attempting to download image for: '' @ get_title f)
                        (the_world st))))
      in case fst res of
           Inl traceback \<Rightarrow> Inl (traceback, snd res)
         | Inr ok \<Rightarrow>
             if ok
             then Inr (st\<lparr>download_count := download_count st + 1, the_world := snd res\<rparr>)
             else Inr (st\<lparr>error_count := error_count st + 1, the_world := snd res\<rparr>))"
  using assms by (simp add: process_film_def Let_def)

lemma process_film_counts:
  assumes "process_film e f st = Inr st'"
  shows "download_count st' + error_count st'
           = download_count st + error_count st + (if has_image f then 1 else 0)"
proof (cases "has_image f")
  case False
  with assms show ?thesis by (auto simp: process_film_skip)
next
  case True
  then obtain url where "film_image f = Some url" and "url \<noteq> []"
    by (auto simp: has_image_def split: option.splits)
  with assms True show ?thesis
    by (auto simp: process_film_download Let_def split: sum.splits if_splits)
qed

lemma download_loop_append:
  "download_loop e (xs @ ys) st =
     (case download_loop e xs st of
        Inl uncaught \<Rightarrow> Inl uncaught
      | Inr st' \<Rightarrow> download_loop e ys st')"
  by (induction xs arbitrary: st) (simp_all split: sum.splits)

lemma download_loop_counts:
  assumes "download_loop e fs st = Inr st'"
  shows "download_count st' + error_count st'
           = download_count st + error_count st + length (filter has_image fs)"
  using assms
proof (induction fs arbitrary: st)
  case Nil
  then show ?case by simp
next
  case (Cons f fs)
  from Cons.prems obtain mid where mid: "process_film e f st = Inr mid"
    and rest: "download_loop e fs mid = Inr st'"
    by (auto split: sum.splits)
  have "download_count st' + error_count st'
          = download_count mid + error_count mid + length (filter has_image fs)"
    using rest by (rule Cons.IH)
  also have "\<dots> = download_count st + error_count st + length (filter has_image (f # fs))"
    using process_film_counts [OF mid] by simp
  finally show ?case .
qed

lemma run_normal:
  assumes "fetch_films e = Inr films" and "makedirs_fault e = None"
    and "download_loop e films (loop_start films w) = Inr st"
  shows "fetch_and_download_ghibli_images e w = (report st, 0)"
  using assms by (simp add: fetch_and_download_ghibli_images_def loop_start_def Let_def)

lemma run_aborted:
  assumes "fetch_films e = Inr films" and "makedirs_fault e = None"
    and "download_loop e films (loop_start films w) = Inl (traceback, w')"
  shows "fetch_and_download_ghibli_images e w = (print_err traceback w', 1)"
  using assms by (simp add: fetch_and_download_ghibli_images_def loop_start_def Let_def)

lemma stdout_report:
  "stdout (report st) = stdout (the_world st)
     @ [CHR 0x0A # ''--- Download Complete ---'',
        ''Successfully downloaded '' @ str_nat (download_count st) @ '' images.'']
     @ (if error_count st > 0
        then [''Failed to download '' @ str_nat (error_count st) @ '' images.''] else [])"
  by (simp add: report_def Let_def print_out_def)

lemma report_rest:
  "stderr (report st) = stderr (the_world st) \<and> requests (report st) = requests (the_world st)
   \<and> files (report st) = files (the_world st) \<and> dirs (report st) = dirs (the_world st)"
  by (simp add: report_def Let_def print_out_def)

lemma fetch_films_fails:
  assumes "case api_get e of Inl msg \<Rightarrow> True
           | Inr r \<Rightarrow> 400 \<le> status_code r \<and> status_code r < 600 \<or> isl (body r)"
  shows "\<exists>x. fetch_films e = Inl x"
  using assms
  by (auto simp: fetch_films_def raise_for_status_def isl_def split: sum.splits option.splits)

lemma run_fatal:
  assumes "fetch_films e = Inl x"
  shows "snd (fetch_and_download_ghibli_images e w) = 1
    \<and> (\<exists>line. stderr (fst (fetch_and_download_ghibli_images e w)) = stderr w @ [line])
    \<and> requests (fst (fetch_and_download_ghibli_images e w)) = requests w @ [API_URL]
    \<and> files (fst (fetch_and_download_ghibli_images e w)) = files w
    \<and> dirs (fst (fetch_and_download_ghibli_images e w)) = dirs w"
  using assms
  by (cases x) (simp_all add: fetch_and_download_ghibli_images_def Let_def print_err_def print_out_def)

lemma download_image_http_error:
  assumes "image_get e (length (requests w)) url = Inr r"
      and "400 \<le> status_code r" and "status_code r < 600"
  shows "fst (download_image e url p w) = Inr False"
    and "files (snd (download_image e url p w)) = files w"
    and "stdout (snd (download_image e url p w)) = stdout w"
    and "\<exists>line. stderr (snd (download_image e url p w)) = stderr w @ [line]"
  using assms
  by (auto simp: download_image_def Let_def raise_for_status_def print_err_def)

lemma download_image_escape:
  assumes "image_get e (length (requests w)) url = Inl (Escaped traceback)"
  shows "fst (download_image e url p w) = Inl traceback"
  using assms by (simp add: download_image_def Let_def)

lemma download_image_nul:
  assumes "image_get e (length (requests w)) url = Inr r" and "raise_for_status r = None"
    and "CHR 0x00 \<in> set p"
  shows "fst (download_image e url p w) = Inl ''ValueError: embedded null byte''"
  using assms by (simp add: download_image_def Let_def)

text \<open>
  An exception leaves \<^verbatim>\<open>download_image\<close> only when \<^verbatim>\<open>requests.get\<close> lets one through
  or the path has a NUL character.
\<close>

lemma download_image_returns:
  assumes "\<And>traceback. image_get e (length (requests w)) url \<noteq> Inl (Escaped traceback)"
    and "CHR 0x00 \<notin> set p"
  shows "\<exists>ok. fst (download_image e url p w) = Inr ok"
proof (cases "image_get e (length (requests w)) url")
  case (Inl failure)
  with assms(1) obtain msg where "failure = Raised msg" by (cases failure) auto
  with Inl show ?thesis by (auto simp: download_image_def Let_def)
next
  case (Inr r)
  with assms(2) show ?thesis
    by (auto simp: download_image_def Let_def split: option.split fs_fault.split)
qed

lemma filepath_no_nul:
  assumes "CHR 0x00 \<notin> set title" and "CHR 0x00 \<notin> set url"
  shows "CHR 0x00 \<notin> set (filepath_of title url)"
proof -
  have "set (sanitize_filename title) \<subseteq> insert CHR ''_'' (set title)"
    using set_sanitize [of title] by (auto simp: remove_invalid_def)
  with assms(1) have base: "CHR 0x00 \<notin> set (sanitize_filename title)" by auto
  have "set (after_last_dot (last_segment url)) \<subseteq> set url"
    by (auto simp: after_last_dot_def last_segment_def dest!: set_takeWhileD)
  with assms(2) have ext: "CHR 0x00 \<notin> set (file_extension url)"
    by (auto simp: file_extension_eq)
  from base ext show ?thesis
    by (simp add: filepath_of_eq DOWNLOAD_DIR_def)
qed

lemma process_film_returns:
  assumes "\<And>k u traceback. image_get e k u \<noteq> Inl (Escaped traceback)"
    and "CHR 0x00 \<notin> set (get_title f)"
    and "\<And>u. film_image f = Some u \<Longrightarrow> CHR 0x00 \<notin> set u"
  shows "\<exists>st'. process_film e f st = Inr st'"
proof (cases "has_image f")
  case False
  then show ?thesis by (simp add: process_film_skip)
next
  case True
  then obtain url where url: "film_image f = Some url" "url \<noteq> []"
    by (auto simp: has_image_def split: option.splits)
  let ?w = "print_out (''Saving to: '' @ filepath_of (get_title f) url)
              (print_out (''Image URL: '' @ url)
                (print_out (CHR 0x0A # ''Attempting to download image for: '' @ get_title f)
                  (the_world st)))"
  have "CHR 0x00 \<notin> set (filepath_of (get_title f) url)"
    using assms(2) assms(3) [OF url(1)] by (rule filepath_no_nul)
  with assms(1) obtain ok
    where "fst (download_image e url (filepath_of (get_title f) url) ?w) = Inr ok"
    using download_image_returns by blast
  then show ?thesis
    by (simp add: process_film_download [OF url] Let_def)
qed

text \<open>
  The loop reaches its end whenever \<^verbatim>\<open>requests.get\<close> lets no exception through and no
  title or image URL has a NUL character.
\<close>

lemma download_loop_finishes:
  assumes "\<And>k u traceback. image_get e k u \<noteq> Inl (Escaped traceback)"
    and "\<And>f. f \<in> set fs \<Longrightarrow> CHR 0x00 \<notin> set (get_title f)"
    and "\<And>f u. f \<in> set fs \<Longrightarrow> film_image f = Some u \<Longrightarrow> CHR 0x00 \<notin> set u"
  shows "\<exists>st'. download_loop e fs st = Inr st'"
  using assms(2,3)
proof (induction fs arbitrary: st)
  case Nil
  show ?case by simp
next
  case (Cons f fs)
  have title: "CHR 0x00 \<notin> set (get_title f)"
    using Cons.prems(1) [of f] by simp
  have image: "CHR 0x00 \<notin> set u" if "film_image f = Some u" for u
    using Cons.prems(2) [of f u] that by simp
  have "\<exists>mid. process_film e f st = Inr mid"
    using assms(1) title image by (rule process_film_returns)
  then obtain mid where mid: "process_film e f st = Inr mid" by blast
  have "\<exists>st'. download_loop e fs mid = Inr st'"
  proof (rule Cons.IH)
    show "CHR 0x00 \<notin> set (get_title g)" if "g \<in> set fs" for g
      using Cons.prems(1) [of g] that by simp
    show "CHR 0x00 \<notin> set u" if "g \<in> set fs" and "film_image g = Some u" for g u
      using Cons.prems(2) [of g u] that by simp
  qed
  with mid show ?case by simp
qed

text \<open>
  A run that an exception ends in the loop: the second record's title has a NUL character,
  so \<^verbatim>\<open>open\<close> raises a ValueError that nothing catches. The exit code is 1, the traceback
  is the last thing printed, the report is not printed and the third record is never
  requested.
\<close>

lemma nul_title_aborts_run:
  "snd (fetch_and_download_ghibli_images (env_of [film_castle, film_nul, film_ponyo] 200 200)
          blank_world) = 1
   \<and> requests (fst (fetch_and_download_ghibli_images
                      (env_of [film_castle, film_nul, film_ponyo] 200 200) blank_world))
       = [API_URL, ''https://example.org/a.jpg'', ''https://example.org/n.jpg'']
   \<and> stderr (fst (fetch_and_download_ghibli_images
                    (env_of [film_castle, film_nul, film_ponyo] 200 200) blank_world))
       = [''ValueError: embedded null byte'']
   \<and> last (stdout (fst (fetch_and_download_ghibli_images
                          (env_of [film_castle, film_nul, film_ponyo] 200 200) blank_world)))
       = ''Saving to: ghibli_movie_images/'' @ [CHR ''a'', CHR 0x00, CHR ''b''] @ ''.jpg''"
  by code_simp

text \<open>
  Claim C3, as the code has it. If the metadata request fails (no response, or a response
  with a status from 400 to 599) or the body of the response does not parse as JSON, the
  program prints one line on standard error and ends with exit code 1; it has made no
  request but the metadata request, written no file and made no directory.
\<close>

theorem metadata_failure_is_fatal:
  assumes "case api_get e of
             Inl msg \<Rightarrow> True
           | Inr r \<Rightarrow> (400 \<le> status_code r \<and> status_code r < 600) \<or> isl (body r)"
  shows "snd (fetch_and_download_ghibli_images e w) = 1
    \<and> (\<exists>line. stderr (fst (fetch_and_download_ghibli_images e w)) = stderr w @ [line])
    \<and> requests (fst (fetch_and_download_ghibli_images e w)) = requests w @ [API_URL]
    \<and> files (fst (fetch_and_download_ghibli_images e w)) = files w
    \<and> dirs (fst (fetch_and_download_ghibli_images e w)) = dirs w"
proof -
  from assms obtain x where "fetch_films e = Inl x"
    using fetch_films_fails by blast
  then show ?thesis by (rule run_fatal)
qed

theorem metadata_failure_is_fatal_witness:
  "snd (fetch_and_download_ghibli_images (sample_env 503 200) blank_world) = 1
    \<and> (\<exists>line. stderr (fst (fetch_and_download_ghibli_images (sample_env 503 200) blank_world))
                 = stderr blank_world @ [line])
    \<and> requests (fst (fetch_and_download_ghibli_images (sample_env 503 200) blank_world))
         = requests blank_world @ [API_URL]
    \<and> files (fst (fetch_and_download_ghibli_images (sample_env 503 200) blank_world))
         = files blank_world
    \<and> dirs (fst (fetch_and_download_ghibli_images (sample_env 503 200) blank_world))
         = dirs blank_world"
proof -
  have "case api_get (sample_env 503 200) of
             Inl msg \<Rightarrow> True
           | Inr r \<Rightarrow> (400 \<le> status_code r \<and> status_code r < 600) \<or> isl (body r)"
    by (simp add: sample_env_def env_of_def sample_response_def)
  then show ?thesis by (rule metadata_failure_is_fatal)
qed

text \<open>
  Claim C3 as the specification states it, for every status outside 2xx, fails on a
  metadata response with status 300 and a JSON list as body: \<^verbatim>\<open>raise_for_status\<close> raises
  nothing, the images are requested and written, and the exit code is 0.
\<close>

theorem metadata_status_300_counterexample:
  "api_get (sample_env 300 200) = Inr (sample_response 300 API_URL (Inr sample_films))
   \<and> status_code (sample_response 300 API_URL (Inr sample_films)) = 300
   \<and> raise_for_status (sample_response 300 API_URL (Inr sample_films)) = None
   \<and> snd (fetch_and_download_ghibli_images (sample_env 300 200) blank_world) = 0
   \<and> requests (fst (fetch_and_download_ghibli_images (sample_env 300 200) blank_world))
        = [API_URL, ''https://example.org/a.jpg'', ''https://example.org/b.png'',
           ''https://example.org/c'']
   \<and> files (fst (fetch_and_download_ghibli_images (sample_env 300 200) blank_world))
        ''ghibli_movie_images/Ponyo.jpg'' = Some ''PNGdata''"
  by code_simp

text \<open>
  Claim C4, as the code has it. If the request for a record's image returns a status from
  400 to 599, the record is counted as a failure (the error counter grows by one, the
  success counter is unchanged), no file is written for it, and the loop goes on with the
  records after it, in list order.
\<close>

theorem http_error_is_counted_and_loop_continues:
  assumes "film_image f = Some url" and "url \<noteq> []"
    and "download_loop e before start = Inr st"
    and "image_get e (length (requests (the_world st))) url = Inr r"
    and "400 \<le> status_code r" and "status_code r < 600"
  shows "\<exists>st'. process_film e f st = Inr st'
    \<and> error_count st' = error_count st + 1
    \<and> download_count st' = download_count st
    \<and> files (the_world st') = files (the_world st)
    \<and> download_loop e (before @ f # rest) start = download_loop e rest st'"
proof -
  let ?w = "print_out (''Saving to: '' @ filepath_of (get_title f) url)
              (print_out (''Image URL: '' @ url)
                (print_out (CHR 0x0A # ''Attempting to download image for: '' @ get_title f)
                  (the_world st)))"
  let ?res = "download_image e url (filepath_of (get_title f) url) ?w"
  let ?next = "st\<lparr>error_count := error_count st + 1, the_world := snd ?res\<rparr>"
  have req: "requests ?w = requests (the_world st)" and fil: "files ?w = files (the_world st)"
    by (simp_all add: print_out_def)
  from assms(4) have get: "image_get e (length (requests ?w)) url = Inr r"
    by (simp only: req)
  have failed: "fst ?res = Inr False"
    using get assms(5,6) by (rule download_image_http_error(1))
  have same: "files (snd ?res) = files ?w"
    using get assms(5,6) by (rule download_image_http_error(2))
  have pf: "process_film e f st = Inr ?next"
    using failed by (simp add: process_film_download [OF assms(1,2)] Let_def)
  have "download_loop e (before @ f # rest) start = download_loop e (f # rest) st"
    by (simp add: download_loop_append assms(3))
  then have "download_loop e (before @ f # rest) start = download_loop e rest ?next"
    by (simp add: pf)
  moreover have "error_count ?next = error_count st + 1"
    and "download_count ?next = download_count st"
    and "files (the_world ?next) = files (the_world st)"
    using same fil by simp_all
  ultimately show ?thesis using pf by blast
qed

theorem http_error_is_counted_and_loop_continues_witness:
  "(\<exists>st'. process_film (sample_env 200 404) film_untitled
             (projr (download_loop (sample_env 200 404) [film_castle, film_totoro, film_kiki]
                       (loop_start sample_films blank_world))) = Inr st'
      \<and> error_count st'
          = error_count (projr (download_loop (sample_env 200 404)
                                  [film_castle, film_totoro, film_kiki]
                                  (loop_start sample_films blank_world))) + 1
      \<and> download_count st'
          = download_count (projr (download_loop (sample_env 200 404)
                                     [film_castle, film_totoro, film_kiki]
                                     (loop_start sample_films blank_world)))
      \<and> files (the_world st')
          = files (the_world (projr (download_loop (sample_env 200 404)
                                       [film_castle, film_totoro, film_kiki]
                                       (loop_start sample_films blank_world))))
      \<and> download_loop (sample_env 200 404)
           ([film_castle, film_totoro, film_kiki] @ film_untitled # [film_ponyo])
           (loop_start sample_films blank_world)
          = download_loop (sample_env 200 404) [film_ponyo] st')
   \<and> \<not> isl (download_loop (sample_env 200 404) sample_films
               (loop_start sample_films blank_world))
   \<and> download_count (projr (download_loop (sample_env 200 404) sample_films
        (loop_start sample_films blank_world))) = 2
   \<and> error_count (projr (download_loop (sample_env 200 404) sample_films
        (loop_start sample_films blank_world))) = 1"
proof -
  let ?e = "sample_env 200 404"
  let ?init = "loop_start sample_films blank_world"
  let ?before = "download_loop ?e [film_castle, film_totoro, film_kiki] ?init"
  let ?url = "''https://example.org/b.png''"
  let ?r = "sample_response 404 ?url ([''PNG'', ''data''], None :: string option)"
  have 1: "film_image film_untitled = Some ?url" by (simp add: film_untitled_def)
  have 2: "?url \<noteq> []" by simp
  have "\<not> isl ?before" by code_simp
  then have 3: "?before = Inr (projr ?before)" by simp
  have 4: "image_get ?e (length (requests (the_world (projr ?before)))) ?url = Inr ?r"
    by code_simp
  have 5: "400 \<le> status_code ?r" and 6: "status_code ?r < 600"
    by code_simp+
  have 7: "\<not> isl (download_loop ?e sample_films ?init)
           \<and> download_count (projr (download_loop ?e sample_films ?init)) = 2
           \<and> error_count (projr (download_loop ?e sample_films ?init)) = 1"
    by code_simp
  from http_error_is_counted_and_loop_continues [OF 1 2 3 4 5 6, of "[film_ponyo]"] 7
  show ?thesis by (rule conjI)
qed

text \<open>
  Claim C4 as the specification states it, for every status outside 2xx, fails on an
  image response with status 300: \<^verbatim>\<open>raise_for_status\<close> raises nothing, the body is written
  to the file, and the record is counted as a success.
\<close>

theorem image_status_300_counterexample:
  "image_get (sample_env 200 300) 2 ''https://example.org/b.png''
     = Inr (sample_response 300 ''https://example.org/b.png'' ([''PNG'', ''data''], None))
   \<and> status_code (sample_response 300 ''https://example.org/b.png''
                     ([''PNG'', ''data''], None :: string option)) = 300
   \<and> film_image film_untitled = Some ''https://example.org/b.png''
   \<and> \<not> isl (download_loop (sample_env 200 300) [film_castle, film_totoro, film_kiki]
               (loop_start sample_films blank_world))
   \<and> length (requests (the_world (projr (download_loop (sample_env 200 300)
          [film_castle, film_totoro, film_kiki] (loop_start sample_films blank_world))))) = 2
   \<and> error_count (projr (download_loop (sample_env 200 300)
          [film_castle, film_totoro, film_kiki] (loop_start sample_films blank_world))) = 0
   \<and> download_count (projr (download_loop (sample_env 200 300)
          [film_castle, film_totoro, film_kiki] (loop_start sample_films blank_world))) = 1
   \<and> files (the_world (projr (download_loop (sample_env 200 300)
          [film_castle, film_totoro, film_kiki] (loop_start sample_films blank_world))))
        ''ghibli_movie_images/unknown_title.png'' = None
   \<and> \<not> isl (process_film (sample_env 200 300) film_untitled
        (projr (download_loop (sample_env 200 300) [film_castle, film_totoro, film_kiki]
           (loop_start sample_films blank_world))))
   \<and> error_count (projr (process_film (sample_env 200 300) film_untitled
        (projr (download_loop (sample_env 200 300) [film_castle, film_totoro, film_kiki]
           (loop_start sample_films blank_world))))) = 0
   \<and> download_count (projr (process_film (sample_env 200 300) film_untitled
        (projr (download_loop (sample_env 200 300) [film_castle, film_totoro, film_kiki]
           (loop_start sample_films blank_world))))) = 2
   \<and> files (the_world (projr (process_film (sample_env 200 300) film_untitled
        (projr (download_loop (sample_env 200 300) [film_castle, film_totoro, film_kiki]
           (loop_start sample_films blank_world))))))
        ''ghibli_movie_images/unknown_title.png'' = Some ''PNGdata''"
  by code_simp

text \<open>
  Claim C5. A record without an image URL is skipped with a warning on standard error:
  neither counter changes, nothing is requested and no file is written.
\<close>

theorem record_without_image_is_skipped:
  assumes "film_image f = None"
  shows "\<exists>st'. process_film e f st = Inr st'
    \<and> download_count st' = download_count st
    \<and> error_count st' = error_count st
    \<and> stderr (the_world st')
        = stderr (the_world st) @ [''Warning: No image URL found for film: '' @ get_title f]
    \<and> stdout (the_world st') = stdout (the_world st)
    \<and> requests (the_world st') = requests (the_world st)
    \<and> files (the_world st') = files (the_world st)"
proof -
  from assms have "\<not> has_image f" by (simp add: has_image_def)
  then show ?thesis by (simp add: process_film_skip print_err_def)
qed

theorem record_without_image_is_skipped_witness:
  "(\<exists>st'. process_film (sample_env 200 404) film_totoro
             (loop_start sample_films blank_world) = Inr st'
      \<and> download_count st' = download_count (loop_start sample_films blank_world)
      \<and> error_count st' = error_count (loop_start sample_films blank_world)
      \<and> stderr (the_world st')
          = stderr (the_world (loop_start sample_films blank_world))
            @ [''Warning: No image URL found for film: '' @ get_title film_totoro]
      \<and> stdout (the_world st') = stdout (the_world (loop_start sample_films blank_world))
      \<and> requests (the_world st') = requests (the_world (loop_start sample_films blank_world))
      \<and> files (the_world st') = files (the_world (loop_start sample_films blank_world)))
   \<and> stderr (the_world (projr (process_film (sample_env 200 404) film_totoro
       (loop_start sample_films blank_world))))
      = [''Warning: No image URL found for film: My Neighbor Totoro'']"
proof -
  have 1: "film_image film_totoro = None" by (simp add: film_totoro_def)
  have 2: "stderr (the_world (projr (process_film (sample_env 200 404) film_totoro
       (loop_start sample_films blank_world))))
      = [''Warning: No image URL found for film: My Neighbor Totoro'']"
    by code_simp
  from record_without_image_is_skipped [OF 1, of "sample_env 200 404"
         "loop_start sample_films blank_world"] 2
  show ?thesis by (rule conjI)
qed

text \<open>
  Claim C9. A record whose image field holds the empty string is processed exactly as a
  record without the field: it is skipped with the warning, and neither counter changes.
\<close>

theorem empty_image_url_is_skipped_like_missing:
  "process_film e (f\<lparr>film_image := Some []\<rparr>) st = process_film e (f\<lparr>film_image := None\<rparr>) st
   \<and> (\<exists>st'. process_film e (f\<lparr>film_image := Some []\<rparr>) st = Inr st'
        \<and> download_count st' = download_count st
        \<and> error_count st' = error_count st
        \<and> stderr (the_world st')
            = stderr (the_world st) @ [''Warning: No image URL found for film: '' @ get_title f]
        \<and> requests (the_world st') = requests (the_world st)
        \<and> files (the_world st') = files (the_world st))"
  by (simp add: process_film_def Let_def get_title_def print_err_def)

theorem empty_image_url_is_skipped_like_missing_witness:
  "film_kiki\<lparr>film_image := Some []\<rparr> = film_kiki
   \<and> process_film (sample_env 200 404) (film_kiki\<lparr>film_image := Some []\<rparr>)
         (loop_start sample_films blank_world)
     = process_film (sample_env 200 404) (film_kiki\<lparr>film_image := None\<rparr>)
         (loop_start sample_films blank_world)
   \<and> stderr (the_world (projr (process_film (sample_env 200 404) film_kiki
       (loop_start sample_films blank_world))))
       = [''Warning: No image URL found for film: Kiki'']"
proof -
  have 1: "film_kiki\<lparr>film_image := Some []\<rparr> = film_kiki"
    by (simp add: film_kiki_def)
  have 2: "stderr (the_world (projr (process_film (sample_env 200 404) film_kiki
       (loop_start sample_films blank_world))))
       = [''Warning: No image URL found for film: Kiki'']"
    by code_simp
  from empty_image_url_is_skipped_like_missing [of "sample_env 200 404" film_kiki
         "loop_start sample_films blank_world"]
  have 3: "process_film (sample_env 200 404) (film_kiki\<lparr>film_image := Some []\<rparr>)
         (loop_start sample_films blank_world)
     = process_film (sample_env 200 404) (film_kiki\<lparr>film_image := None\<rparr>)
         (loop_start sample_films blank_world)"
    by (rule conjunct1)
  from 1 3 2 show ?thesis by (intro conjI)
qed

text \<open>
  Claim C10. At every point of the loop, after any number \<open>n\<close> of records, the success
  counter plus the error counter is the number of records processed so far that have a
  non-empty image URL; so the counts of the final report add up to the number of records
  that were not skipped.
\<close>

theorem counters_sum_to_records_with_image:
  assumes "download_count st = 0" and "error_count st = 0"
    and "download_loop e (take n fs) st = Inr st'"
  shows "download_count st' + error_count st' = length (filter has_image (take n fs))
    \<and> download_loop e fs st = download_loop e (drop n fs) st'
    \<and> (case download_loop e fs st of
          Inl uncaught \<Rightarrow> True
        | Inr last_state \<Rightarrow>
            download_count last_state + error_count last_state
              = length (filter has_image fs))"
proof -
  have "download_loop e (take n fs @ drop n fs) st = download_loop e (drop n fs) st'"
    by (simp only: download_loop_append assms(3)) simp
  then have "download_loop e fs st = download_loop e (drop n fs) st'"
    by simp
  moreover have "download_count s + error_count s = length (filter has_image xs)"
    if "download_loop e xs st = Inr s" for xs s
    using download_loop_counts [OF that] assms(1,2) by simp
  ultimately show ?thesis
    using assms(3) by (auto split: sum.split)
qed

theorem counters_sum_to_records_with_image_witness:
  "(download_count (projr (download_loop (sample_env 200 404) (take 4 sample_films)
                             (loop_start sample_films blank_world)))
     + error_count (projr (download_loop (sample_env 200 404) (take 4 sample_films)
                             (loop_start sample_films blank_world)))
      = length (filter has_image (take 4 sample_films))
    \<and> download_loop (sample_env 200 404) sample_films (loop_start sample_films blank_world)
      = download_loop (sample_env 200 404) (drop 4 sample_films)
          (projr (download_loop (sample_env 200 404) (take 4 sample_films)
                    (loop_start sample_films blank_world)))
    \<and> (case download_loop (sample_env 200 404) sample_films
               (loop_start sample_films blank_world) of
          Inl uncaught \<Rightarrow> True
        | Inr last_state \<Rightarrow>
            download_count last_state + error_count last_state
              = length (filter has_image sample_films)))
   \<and> length (filter has_image (take 4 sample_films)) = 2
   \<and> length (filter has_image sample_films) = 3
   \<and> \<not> isl (download_loop (sample_env 200 404) sample_films
               (loop_start sample_films blank_world))"
proof -
  let ?prefix = "download_loop (sample_env 200 404) (take 4 sample_films)
                   (loop_start sample_films blank_world)"
  have 1: "download_count (loop_start sample_films blank_world) = 0"
    and 2: "error_count (loop_start sample_films blank_world) = 0"
    by code_simp+
  have "\<not> isl ?prefix" by code_simp
  then have 3: "?prefix = Inr (projr ?prefix)" by simp
  have 4: "length (filter has_image (take 4 sample_films)) = 2
           \<and> length (filter has_image sample_films) = 3
           \<and> \<not> isl (download_loop (sample_env 200 404) sample_films
                       (loop_start sample_films blank_world))"
    by code_simp
  from counters_sum_to_records_with_image [OF 1 2 3] 4
  show ?thesis by (rule conjI)
qed

text \<open>
  Claim C8. After all records are processed, that is when the metadata request gave a
  list, the directory could be made and no exception ended the loop, the run ends with
  exit code 0, whatever the number of failed downloads; it prints the completion line and
  the success count, and then the error count exactly when that count is not zero.
\<close>

theorem final_report_and_exit_code:
  assumes "fetch_films e = Inr films" and "makedirs_fault e = None"
    and "download_loop e films (loop_start films w) = Inr st"
  shows "snd (fetch_and_download_ghibli_images e w) = 0
    \<and> stdout (fst (fetch_and_download_ghibli_images e w))
        = stdout (the_world st)
          @ [CHR 0x0A # ''--- Download Complete ---'',
             ''Successfully downloaded '' @ str_nat (download_count st) @ '' images.'']
          @ (if error_count st > 0
             then [''Failed to download '' @ str_nat (error_count st) @ '' images.'']
             else [])
    \<and> stderr (fst (fetch_and_download_ghibli_images e w)) = stderr (the_world st)
    \<and> files (fst (fetch_and_download_ghibli_images e w)) = files (the_world st)"
  using run_normal [OF assms]
  by (simp add: stdout_report report_rest)

theorem final_report_and_exit_code_witness:
  "(snd (fetch_and_download_ghibli_images (sample_env 200 404) blank_world) = 0
    \<and> stdout (fst (fetch_and_download_ghibli_images (sample_env 200 404) blank_world))
        = stdout (the_world (projr (download_loop (sample_env 200 404) sample_films
                                      (loop_start sample_films blank_world))))
          @ [CHR 0x0A # ''--- Download Complete ---'',
             ''Successfully downloaded ''
               @ str_nat (download_count (projr (download_loop (sample_env 200 404)
                                                   sample_films
                                                   (loop_start sample_films blank_world))))
               @ '' images.'']
          @ (if error_count (projr (download_loop (sample_env 200 404) sample_films
                                      (loop_start sample_films blank_world))) > 0
             then [''Failed to download ''
                     @ str_nat (error_count (projr (download_loop (sample_env 200 404)
                                                      sample_films
                                                      (loop_start sample_films blank_world))))
                     @ '' images.'']
             else [])
    \<and> stderr (fst (fetch_and_download_ghibli_images (sample_env 200 404) blank_world))
        = stderr (the_world (projr (download_loop (sample_env 200 404) sample_films
                                      (loop_start sample_films blank_world))))
    \<and> files (fst (fetch_and_download_ghibli_images (sample_env 200 404) blank_world))
        = files (the_world (projr (download_loop (sample_env 200 404) sample_films
                                     (loop_start sample_films blank_world)))))
   \<and> error_count (projr (download_loop (sample_env 200 404) sample_films
         (loop_start sample_films blank_world))) = 1
   \<and> drop 15 (stdout (fst (fetch_and_download_ghibli_images (sample_env 200 404) blank_world)))
       = [''Successfully downloaded 2 images.'', ''Failed to download 1 images.'']"
proof -
  let ?loop = "download_loop (sample_env 200 404) sample_films
                 (loop_start sample_films blank_world)"
  have 1: "fetch_films (sample_env 200 404) = Inr sample_films" by code_simp
  have 2: "makedirs_fault (sample_env 200 404) = None" by code_simp
  have "\<not> isl ?loop" by code_simp
  then have 3: "?loop = Inr (projr ?loop)" by simp
  have 4: "error_count (projr ?loop) = 1
   \<and> drop 15 (stdout (fst (fetch_and_download_ghibli_images (sample_env 200 404) blank_world)))
       = [''Successfully downloaded 2 images.'', ''Failed to download 1 images.'']"
    by code_simp
  from final_report_and_exit_code [OF 1 2 3] 4
  show ?thesis by (rule conjI)
qed

end
